theory Spec2Isabelle
  imports Main
begin

section \<open>Data model\<close>

text \<open>
  A Go byte slice is modelled by its contents, a list of 8-bit characters. A Go
  \<^verbatim>\<open>error\<close> value is an \<open>error option\<close>: \<open>None\<close> is \<^verbatim>\<open>nil\<close>, the two sentinels
  the code compares against or manufactures are constructors of their own, and every
  other failure carries its message.
\<close>

type_synonym bytes = string

datatype error = EOF | ErrSequenceTerminated | Failure string

text \<open>
  The body of an iterator function \<^verbatim>\<open>func(yield func([]byte, error) bool)\<close> is a
  sequential computation whose only interaction with its consumer is the call of
  \<^verbatim>\<open>yield\<close>: it hands over a chunk and an error and continues according to the boolean
  that comes back. \<open>Return\<close> is the end of the computation with its result, \<open>Yield\<close> is
  one call of \<^verbatim>\<open>yield\<close> with the rest of the computation as a function of the answer,
  and \<open>Never\<close> is a computation whose control does not come back (it blocks forever
  or the runtime panics). A value of this type makes finitely many calls along every
  run; an iterator function that goes on forever is represented up to any chosen number
  of steps, with \<open>Never\<close> beyond.
\<close>

datatype 'a prog = Return 'a | Yield bytes "error option" "bool \<Rightarrow> 'a prog" | Never

primrec pbind :: "'a prog \<Rightarrow> ('a \<Rightarrow> 'b prog) \<Rightarrow> 'b prog" where
  "pbind (Return a) f = f a"
| "pbind (Yield d e k) f = Yield d e (\<lambda>ok. pbind (k ok) f)"
| "pbind Never f = Never"

text \<open>\<^verbatim>\<open>type Seq = iter.Seq2[[]byte, error]\<close>: an iterator body that returns nothing.\<close>

type_synonym Seq = "unit prog"

text \<open>
  An \<^verbatim>\<open>io.Writer\<close> is an object with a state \<open>'w\<close> and a method \<^verbatim>\<open>Write\<close>. The method
  is itself a computation, because the writer built by \<^verbatim>\<open>SeqWriter\<close> calls \<^verbatim>\<open>yield\<close>;
  an ordinary writer returns at once.
\<close>

type_synonym 'w writer = "bytes \<Rightarrow> 'w \<Rightarrow> ((nat \<times> error option) \<times> 'w) prog"

text \<open>
  Code that is handed an \<^verbatim>\<open>io.Writer\<close> and drives it (the \<^verbatim>\<open>WriteTo\<close> method of a
  source, the methods of a transform returned by \<^verbatim>\<open>f(w)\<close>) is a computation whose
  interaction is the call \<^verbatim>\<open>w.Write(buf)\<close> and its result \<^verbatim>\<open>(n, err)\<close>. Such code
  belongs to the caller of this package; it is taken to return after finitely many
  writes.
\<close>

datatype 'a wprog = WReturn 'a | WWrite bytes "(nat \<times> error option) \<Rightarrow> 'a wprog"

text \<open>Running such code against a concrete writer \<open>wr\<close> in state \<open>s\<close>.\<close>

primrec drive :: "'a wprog \<Rightarrow> 's writer \<Rightarrow> 's \<Rightarrow> ('a \<times> 's) prog" where
  "drive (WReturn a) wr s = Return (a, s)"
| "drive (WWrite d g) wr s = pbind (wr d s) (\<lambda>(res, s'). drive (g res) wr s')"

section \<open>SeqWriter and seqWriter.Write\<close>


text \<open>
  \<^verbatim>\<open>
  func (w seqWriter) Write(buf []byte) (int, error) {
      if !*w.active { return 0, ErrSequenceTerminated }
      if !w.yield(slices.Clip(buf), nil) {
          *w.active = false
          return 0, ErrSequenceTerminated
      }
      return len(buf), nil
  }
  \<close>
  \<^verbatim>\<open>slices.Clip(buf)\<close> has the contents of \<^verbatim>\<open>buf\<close>.
\<close>

definition seqWriter_Write :: "bool writer" where
  "seqWriter_Write buf active =
     (if \<not> active then Return ((0, Some ErrSequenceTerminated), active)
      else Yield buf None (\<lambda>ok.
        if \<not> ok then Return ((0, Some ErrSequenceTerminated), False)
        else Return ((length buf, None), active)))"

text \<open>A caller making the writes \<open>bufs\<close> one after the other, whatever each returns.\<close>

fun Write_all :: "bytes list \<Rightarrow> bool \<Rightarrow> ((nat \<times> error option) list \<times> bool) prog" where
  "Write_all [] active = Return ([], active)"
| "Write_all (buf # bufs) active =
     pbind (seqWriter_Write buf active) (\<lambda>(res, active').
       pbind (Write_all bufs active') (\<lambda>(ress, active'').
         Return (res # ress, active'')))"

section \<open>Ranging over a sequence: CopySeq\<close>

text \<open>
  A \<^verbatim>\<open>return\<close> inside the body of \<^verbatim>\<open>for data, err := range r\<close> makes \<^verbatim>\<open>yield\<close> return
  \<^verbatim>\<open>false\<close> to the iterator function; the enclosing function returns once the iterator
  function has returned. An iterator function that calls \<^verbatim>\<open>yield\<close> again after that
  makes the runtime panic.
\<close>

primrec leave :: "'a prog \<Rightarrow> 'b \<Rightarrow> 'b prog" where
  "leave (Return u) x = Return x"
| "leave (Yield d e k) x = Never"
| "leave Never x = Never"

text \<open>
  \<^verbatim>\<open>
  func CopySeq(w io.Writer, r Seq) (int64, error) {
      tot := int64(0)
      for data, err := range r {
          if err != nil { return tot, err }
          n, err := w.Write(data)
          tot += int64(n)
          if err != nil { return tot, err }
      }
      return tot, nil
  }
  \<close>
  The counter \<^verbatim>\<open>tot\<close> is an \<^verbatim>\<open>int64\<close>; it is modelled by an unbounded integer, which is
  the same for every copy of fewer than \<open>2\<^sup>6\<^sup>3\<close> bytes.
\<close>

primrec CopySeq_loop ::
  "Seq \<Rightarrow> 'w writer \<Rightarrow> int \<Rightarrow> 'w \<Rightarrow> ((int \<times> error option) \<times> 'w) prog" where
  "CopySeq_loop (Return u) wr tot w = Return ((tot, None), w)"
| "CopySeq_loop Never wr tot w = Never"
| "CopySeq_loop (Yield data err k) wr tot w =
     (case err of
        Some e \<Rightarrow> leave (k False) ((tot, Some e), w)
      | None \<Rightarrow>
          pbind (wr data w) (\<lambda>((n, werr), w').
            (case werr of
               Some e \<Rightarrow> leave (k False) ((tot + int n, Some e), w')
             | None \<Rightarrow> CopySeq_loop (k True) wr (tot + int n) w')))"

definition CopySeq :: "'w writer \<Rightarrow> 'w \<Rightarrow> Seq \<Rightarrow> ((int \<times> error option) \<times> 'w) prog" where
  "CopySeq wr w r = CopySeq_loop r wr 0 w"

section \<open>SeqFromReader\<close>

text \<open>
  An \<^verbatim>\<open>io.Reader\<close> is an object with a state \<open>'s\<close> and a method \<^verbatim>\<open>Read(buf)\<close> which,
  for a buffer of a given length, returns the bytes it stored at the front of the
  buffer (\<^verbatim>\<open>buf[:n]\<close>), the error, and the new state. A source that also implements
  \<^verbatim>\<open>io.WriterTo\<close> carries its \<^verbatim>\<open>WriteTo\<close> method.
\<close>

record 's Reader =
  read :: "'s \<Rightarrow> nat \<Rightarrow> (bytes \<times> error option) \<times> 's"
  state :: 's
  writeTo :: "(nat \<times> error option) wprog option"

text \<open>
  The writer handed to \<^verbatim>\<open>r.WriteTo\<close> on the fast path:
  \<^verbatim>\<open>
  writerFunc(func(data []byte) (int, error) {
      if !yield(data, nil) { active = false; return 0, ErrSequenceTerminated }
      return len(data), nil
  })
  \<close>
\<close>

definition writerFunc :: "bool writer" where
  "writerFunc data active =
     Yield data None (\<lambda>ok.
       if \<not> ok then Return ((0, Some ErrSequenceTerminated), False)
       else Return ((length data, None), active))"

text \<open>
  The fast path:
  \<^verbatim>\<open>
  active := true
  _, err := r.WriteTo(writerFunc(...))
  if err != nil && active { yield(nil, err) }
  \<close>
\<close>

definition SeqFromReader_fast :: "(nat \<times> error option) wprog \<Rightarrow> Seq" where
  "SeqFromReader_fast wt =
     pbind (drive wt writerFunc True) (\<lambda>((n, err), active).
       if err \<noteq> None \<and> active then Yield [] err (\<lambda>ok. Return ()) else Return ())"

text \<open>
  The fallback path. The loop \<^verbatim>\<open>for { n, err := r.Read(buf); ... }\<close> has no bound of
  its own: the first argument bounds the number of calls of \<^verbatim>\<open>Read\<close>, and a loop that
  has not finished within the bound is \<open>Never\<close>.
  \<^verbatim>\<open>
  n, err := r.Read(buf)
  if err != nil {
      if err == io.EOF { err = nil }
      if n > 0 && !yield(buf[:n], nil) { return }
      if err != nil { yield(nil, err) }
      return
  }
  if n > 0 && !yield(buf[:n], nil) { return }
  \<close>
\<close>

fun SeqFromReader_loop ::
  "nat \<Rightarrow> ('s \<Rightarrow> nat \<Rightarrow> (bytes \<times> error option) \<times> 's) \<Rightarrow> nat \<Rightarrow> 's \<Rightarrow> Seq" where
  "SeqFromReader_loop 0 rd bufSize s = Never"
| "SeqFromReader_loop (Suc fuel) rd bufSize s =
     (case rd s bufSize of ((d, err), s') \<Rightarrow>
       (case err of
          Some e \<Rightarrow>
            (let err' = (if e = EOF then None else Some e);
                 rest = (if err' \<noteq> None then Yield [] err' (\<lambda>ok. Return ()) else Return ())
             in if d \<noteq> [] then Yield d None (\<lambda>ok. if \<not> ok then Return () else rest)
                else rest)
        | None \<Rightarrow>
            (if d \<noteq> []
             then Yield d None (\<lambda>ok.
                    if \<not> ok then Return () else SeqFromReader_loop fuel rd bufSize s')
             else SeqFromReader_loop fuel rd bufSize s')))"

definition SeqFromReader :: "nat \<Rightarrow> 's Reader \<Rightarrow> nat \<Rightarrow> Seq" where
  "SeqFromReader fuel r bufSize =
     (case writeTo r of
        Some wt \<Rightarrow> SeqFromReader_fast wt
      | None \<Rightarrow> SeqFromReader_loop fuel (read r) bufSize (state r))"

section \<open>ReaderFromSeq and iterReader\<close>

text \<open>
  \<^verbatim>\<open>iter.Pull2(seq)\<close> (standard library) starts no computation; it returns \<^verbatim>\<open>next\<close> and
  \<^verbatim>\<open>stop\<close>, two closures over one coroutine. \<^verbatim>\<open>next\<close> runs the iterator function up to
  its next call of \<^verbatim>\<open>yield\<close> and returns the pair with \<^verbatim>\<open>true\<close>, or zero values and
  \<^verbatim>\<open>false\<close> once the function has returned or \<^verbatim>\<open>stop\<close> was called. \<^verbatim>\<open>stop\<close> makes the
  pending \<^verbatim>\<open>yield\<close>, and every later one, return \<^verbatim>\<open>false\<close> and waits for the function
  to return; on a coroutine that has not started it only marks it finished.
\<close>

datatype pull2 = NotStarted Seq | Suspended "bool \<Rightarrow> Seq" | Finished

primrec advance :: "Seq \<Rightarrow> ((bytes \<times> error option \<times> bool) \<times> pull2) option" where
  "advance (Return u) = Some (([], None, False), Finished)"
| "advance (Yield d e k) = Some ((d, e, True), Suspended k)"
| "advance Never = None"

primrec pull_next :: "pull2 \<Rightarrow> ((bytes \<times> error option \<times> bool) \<times> pull2) option" where
  "pull_next (NotStarted s) = advance s"
| "pull_next (Suspended k) = advance (k True)"
| "pull_next Finished = Some (([], None, False), Finished)"

primrec unwinds :: "'a prog \<Rightarrow> bool" where
  "unwinds (Return u) = True"
| "unwinds (Yield d e k) = unwinds (k False)"
| "unwinds Never = False"

primrec pull_stop :: "pull2 \<Rightarrow> pull2 option" where
  "pull_stop (NotStarted s) = Some Finished"
| "pull_stop (Suspended k) = (if unwinds (k False) then Some Finished else None)"
| "pull_stop Finished = Some Finished"

text \<open>
  The struct \<^verbatim>\<open>iterReader\<close>. The residual chunk \<^verbatim>\<open>r.data\<close> is a slice of the chunk
  last handed over by the iterator function, which stays suspended in its call of
  \<^verbatim>\<open>yield\<close> until \<open>Read\<close> finds the residual chunk empty and asks for the next step:
  the storage of a chunk is not written while the reader still uses it, and the chunk
  is modelled by its contents. \<open>next_fn\<close> is \<^verbatim>\<open>r.next\<close>: \<open>None\<close> while the field is nil,
  otherwise the coroutine that \<^verbatim>\<open>r.next\<close> and \<^verbatim>\<open>r.close\<close> share; \<open>close_fn\<close> tells
  whether \<^verbatim>\<open>r.close\<close> is non-nil.
\<close>

record iterReader =
  seq :: "Seq option"
  next_fn :: "pull2 option"
  close_fn :: bool
  err :: "error option"
  data :: bytes

definition ReaderFromSeq :: "Seq \<Rightarrow> iterReader" where
  "ReaderFromSeq s = \<lparr>seq = Some s, next_fn = None, close_fn = False, err = None, data = []\<rparr>"

text \<open>
  \<^verbatim>\<open>
  func (r *iterReader) Read(buf []byte) (int, error) {
      if r.seq != nil { r.next, r.close = iter.Pull2(r.seq); r.seq = nil }
      if r.err != nil { return 0, r.err }
      if len(r.data) == 0 {
          var ok bool
          r.data, r.err, ok = r.next()
          if !ok { r.err = io.EOF }
      }
      n := copy(buf, r.data)
      r.data = r.data[n:]
      if len(r.data) > 0 { return n, nil }
      return n, r.err
  }
  \<close>
  The argument \<open>cap\<close> is \<^verbatim>\<open>len(buf)\<close>; the result holds the bytes copied into \<^verbatim>\<open>buf\<close>
  (so \<^verbatim>\<open>n\<close> is their number), the error and the reader afterwards. Calling the nil
  \<^verbatim>\<open>r.next\<close> panics.
\<close>

definition pulled :: "iterReader \<Rightarrow> iterReader" where
  "pulled r =
     (case seq r of
        Some s \<Rightarrow> r\<lparr>next_fn := Some (NotStarted s), close_fn := True, seq := None\<rparr>
      | None \<Rightarrow> r)"

definition refill :: "iterReader \<Rightarrow> iterReader option" where
  "refill r =
     (if length (data r) = 0 then
        (case next_fn r of
           None \<Rightarrow> None
         | Some c \<Rightarrow>
             (case pull_next c of
                None \<Rightarrow> None
              | Some ((d, e, ok), c') \<Rightarrow>
                  Some (r\<lparr>data := d, err := (if \<not> ok then Some EOF else e),
                          next_fn := Some c'\<rparr>)))
      else Some r)"

definition Read :: "iterReader \<Rightarrow> nat \<Rightarrow> ((bytes \<times> error option) \<times> iterReader) option" where
  "Read r0 cap =
     (let r = pulled r0 in
      if err r \<noteq> None then Some (([], err r), r)
      else
        (case refill r of
           None \<Rightarrow> None
         | Some r1 \<Rightarrow>
             (let n = min cap (length (data r1));
                  out = take n (data r1);
                  r2 = r1\<lparr>data := drop n (data r1)\<rparr>
              in if length (data r2) > 0 then Some ((out, None), r2)
                 else Some ((out, err r2), r2))))"

text \<open>
  \<^verbatim>\<open>
  func (r *iterReader) Close() error {
      if r.close != nil {
          r.close()
          r.close = nil
          if r.err == nil { r.err = io.EOF }
      }
      return nil
  }
  \<close>
\<close>

definition Close :: "iterReader \<Rightarrow> iterReader option" where
  "Close r =
     (if close_fn r then
        (case next_fn r of
           None \<Rightarrow> None
         | Some c \<Rightarrow>
             (case pull_stop c of
                None \<Rightarrow> None
              | Some c' \<Rightarrow>
                  Some (r\<lparr>next_fn := Some c', close_fn := False,
                          err := (if err r = None then Some EOF else err r)\<rparr>)))
      else Some r)"

text \<open>
  \<^verbatim>\<open>
  func (r *iterReader) WriteTo(w io.Writer) (int64, error) {
      if r.seq != nil {
          n, err := CopySeq(w, r.seq)
          r.seq = func(func([]byte, error) bool) {}
          return n, err
      }
      return io.Copy(w, r)
  }
  \<close>
  \<^verbatim>\<open>io.Copy(dst, src)\<close> (standard library): if \<^verbatim>\<open>src\<close> implements \<^verbatim>\<open>io.WriterTo\<close>, the copy
  is done by calling \<^verbatim>\<open>src.WriteTo(dst)\<close>. Here \<^verbatim>\<open>src\<close> is the \<^verbatim>\<open>*iterReader\<close> itself,
  which has the method \<^verbatim>\<open>WriteTo\<close>. The first argument bounds the depth of the calls
  between the two functions; \<open>None\<close> is a call that does not return.

  The destination is an ordinary writer: an object with a state and a \<^verbatim>\<open>Write\<close> that
  returns at once.
\<close>

definition plain :: "(bytes \<Rightarrow> 'w \<Rightarrow> (nat \<times> error option) \<times> 'w) \<Rightarrow> 'w writer" where
  "plain wr buf w = Return (wr buf w)"

primrec returned :: "'a prog \<Rightarrow> 'a option" where
  "returned (Return a) = Some a"
| "returned (Yield d e k) = None"
| "returned Never = None"

fun WriteTo ::
  "nat \<Rightarrow> iterReader \<Rightarrow> (bytes \<Rightarrow> 'w \<Rightarrow> (nat \<times> error option) \<times> 'w) \<Rightarrow> 'w
     \<Rightarrow> (((int \<times> error option) \<times> 'w) \<times> iterReader) option"
and io_Copy ::
  "nat \<Rightarrow> (bytes \<Rightarrow> 'w \<Rightarrow> (nat \<times> error option) \<times> 'w) \<Rightarrow> 'w \<Rightarrow> iterReader
     \<Rightarrow> (((int \<times> error option) \<times> 'w) \<times> iterReader) option" where
  "WriteTo 0 r wr w = None"
| "WriteTo (Suc depth) r wr w =
     (case seq r of
        Some s \<Rightarrow>
          (case returned (CopySeq (plain wr) w s) of
             None \<Rightarrow> None
           | Some res \<Rightarrow> Some (res, r\<lparr>seq := Some (Return ())\<rparr>))
      | None \<Rightarrow> io_Copy depth wr w r)"
| "io_Copy depth wr w r = WriteTo depth r wr w"

section \<open>PipeSeqThrough\<close>





section \<open>Slices as views on backing arrays\<close>

text \<open>
  Where a property depends on which storage a slice shares, a slice is a view on a
  backing array: the array, the offset of its first element, its length and its
  capacity. The store holds the contents of the arrays.
\<close>

record slice =
  s_arr :: nat
  s_off :: nat
  s_len :: nat
  s_cap :: nat

type_synonym store = "nat \<Rightarrow> bytes"

definition view :: "store \<Rightarrow> slice \<Rightarrow> bytes" where
  "view h s = take (s_len s) (drop (s_off s) (h (s_arr s)))"

text \<open>\<^verbatim>\<open>slices.Clip(s)\<close> is \<^verbatim>\<open>s[:len(s):len(s)]\<close>: the same view with no spare capacity.\<close>

definition slices_Clip :: "slice \<Rightarrow> slice" where
  "slices_Clip s = s\<lparr>s_cap := s_len s\<rparr>"

text \<open>The assignment \<^verbatim>\<open>s[i] = b\<close>.\<close>

definition store_byte :: "store \<Rightarrow> slice \<Rightarrow> nat \<Rightarrow> char \<Rightarrow> store" where
  "store_byte h s i b = h(s_arr s := (h (s_arr s))[s_off s + i := b])"

text \<open>
  The built-in \<^verbatim>\<open>append(s, b)\<close>: it stores in place, after the last element, when the
  capacity allows, and otherwise copies the elements into a newly allocated array
  (\<open>fresh\<close>; how much spare capacity the new array gets plays no role here).
\<close>

definition go_append :: "store \<Rightarrow> nat \<Rightarrow> slice \<Rightarrow> char \<Rightarrow> store \<times> slice" where
  "go_append h fresh s b =
     (if s_len s < s_cap s
      then (h(s_arr s := (h (s_arr s))[s_off s + s_len s := b]), s\<lparr>s_len := s_len s + 1\<rparr>)
      else (h(fresh := view h s @ [b]),
            \<lparr>s_arr = fresh, s_off = 0, s_len = s_len s + 1, s_cap = s_len s + 1\<rparr>))"

text \<open>
  \<open>seqWriter.Write\<close> on such slices. The step function is a function of the slice it is
  handed and of the state \<open>'c\<close> of the consumer.
\<close>

definition seqWriter_Write_mem ::
  "(slice \<Rightarrow> error option \<Rightarrow> 'c \<Rightarrow> bool \<times> 'c) \<Rightarrow> slice \<Rightarrow> bool \<Rightarrow> 'c
     \<Rightarrow> ((nat \<times> error option) \<times> bool) \<times> 'c" where
  "seqWriter_Write_mem yield buf active c =
     (if \<not> active then (((0, Some ErrSequenceTerminated), active), c)
      else (case yield (slices_Clip buf) None c of
              (ok, c') \<Rightarrow>
                if \<not> ok then (((0, Some ErrSequenceTerminated), False), c')
                else (((s_len buf, None), active), c')))"

text \<open>Running a computation against a given step function.\<close>

primrec run :: "'a prog \<Rightarrow> (bytes \<Rightarrow> error option \<Rightarrow> 'c \<Rightarrow> bool \<times> 'c) \<Rightarrow> 'c \<Rightarrow> ('a \<times> 'c) option" where
  "run (Return a) y c = Some (a, c)"
| "run (Yield d e k) y c = (case y d e c of (ok, c') \<Rightarrow> run (k ok) y c')"
| "run Never y c = None"

text \<open>A step function that keeps the slice it was handed, and what \<open>Write\<close> hands to it.\<close>

definition retain :: "slice \<Rightarrow> error option \<Rightarrow> slice option \<Rightarrow> bool \<times> slice option" where
  "retain chunk e c = (True, Some chunk)"

definition handed :: "slice \<Rightarrow> slice option" where
  "handed buf = snd (seqWriter_Write_mem retain buf True None)"

text \<open>A store whose array 0 holds \<^verbatim>\<open>"foobar"\<close>, and the slice \<^verbatim>\<open>buf[:3]\<close> of it.\<close>

definition store_foobar :: store where
  "store_foobar a = (if a = 0 then ''foobar'' else [])"

definition buf_foo :: slice where
  "buf_foo = \<lparr>s_arr = 0, s_off = 0, s_len = 3, s_cap = 6\<rparr>"

section \<open>Observations of a computation\<close>

text \<open>
  What a consumer that accepts every step receives from a computation: the steps in
  order, and the result; \<open>None\<close> when control does not come back.
\<close>

primrec observe :: "'a prog \<Rightarrow> ((bytes \<times> error option) list \<times> 'a) option" where
  "observe (Return a) = Some ([], a)"
| "observe (Yield d e k) =
     (case observe (k True) of None \<Rightarrow> None | Some (xs, a) \<Rightarrow> Some ((d, e) # xs, a))"
| "observe Never = None"

text \<open>A computation that does not call \<^verbatim>\<open>yield\<close>.\<close>

primrec silent :: "'a prog \<Rightarrow> bool" where
  "silent (Return a) = True"
| "silent (Yield d e k) = False"
| "silent Never = True"

text \<open>A computation that does not call \<^verbatim>\<open>yield\<close> again once a call has returned false.\<close>

primrec quiet_after_refusal :: "'a prog \<Rightarrow> bool" where
  "quiet_after_refusal (Return a) = True"
| "quiet_after_refusal (Yield d e k) = (silent (k False) \<and> quiet_after_refusal (k True))"
| "quiet_after_refusal Never = True"



text \<open>
  Reading a source directly, with a buffer of length \<open>bufSize\<close>, until it returns an
  error: the chunk of every call, and the terminal signal. The first argument bounds the
  number of calls.
\<close>

fun Read_to_end ::
  "nat \<Rightarrow> ('s \<Rightarrow> nat \<Rightarrow> (bytes \<times> error option) \<times> 's) \<Rightarrow> nat \<Rightarrow> 's \<Rightarrow> (bytes list \<times> error) option" where
  "Read_to_end 0 rd bufSize s = None"
| "Read_to_end (Suc fuel) rd bufSize s =
     (case rd s bufSize of
        ((d, Some e), s') \<Rightarrow> Some ([d], e)
      | ((d, None), s') \<Rightarrow>
          (case Read_to_end fuel rd bufSize s' of
             None \<Rightarrow> None
           | Some (ds, e) \<Rightarrow> Some (d # ds, e)))"


text \<open>The writes that a piece of writer-driving code makes when each is accepted in full.\<close>

primrec accepting :: "'a wprog \<Rightarrow> bytes list \<times> 'a" where
  "accepting (WReturn a) = ([], a)"
| "accepting (WWrite d g) =
     (case accepting (g (length d, None)) of (ds, a) \<Rightarrow> (d # ds, a))"




text \<open>
  The bytes and the terminal condition that a sequence holds for a reader with buffers
  of length \<open>cap\<close>: the chunks up to the first error step, then that error, or
  end-of-stream when the iterator function returns. (An error step that also carries a
  chunk, which the contract of \<^verbatim>\<open>Seq\<close> excludes, passes on what fits one buffer.)
\<close>

primrec stream_of :: "nat \<Rightarrow> 'a prog \<Rightarrow> (bytes \<times> error) option" where
  "stream_of cap (Return a) = Some ([], EOF)"
| "stream_of cap (Yield d e k) =
     (case e of
        Some x \<Rightarrow> Some (take cap d, x)
      | None \<Rightarrow> (case stream_of cap (k True) of None \<Rightarrow> None | Some (bs, x) \<Rightarrow> Some (d @ bs, x)))"
| "stream_of cap Never = None"

text \<open>The same, for a list of steps.\<close>

fun delivered :: "nat \<Rightarrow> (bytes \<times> error option) list \<Rightarrow> bytes \<times> error" where
  "delivered cap [] = ([], EOF)"
| "delivered cap ((d, None) # xs) = (d @ fst (delivered cap xs), snd (delivered cap xs))"
| "delivered cap ((d, Some x) # xs) = (take cap d, x)"

text \<open>
  The byte stream of a source and its terminal signal: what its \<^verbatim>\<open>WriteTo\<close> writes to a
  destination that accepts everything, or, without \<^verbatim>\<open>WriteTo\<close>, what reading it directly
  returns. A bulk transfer that returns no error has ended cleanly.
\<close>

definition source_stream :: "nat \<Rightarrow> 's Reader \<Rightarrow> nat \<Rightarrow> (bytes \<times> error) option" where
  "source_stream fuel r bufSize =
     (case writeTo r of
        Some wt \<Rightarrow>
          (case accepting wt of
             (ds, (n, e)) \<Rightarrow> Some (concat ds, (case e of None \<Rightarrow> EOF | Some x \<Rightarrow> x)))
      | None \<Rightarrow>
          (case Read_to_end fuel (read r) bufSize (state r) of
             None \<Rightarrow> None
           | Some (ds, e) \<Rightarrow> Some (concat ds, e)))"

text \<open>
  What the properties of an arbitrary sequence assume of it: along the steps that a
  consumer accepts the iterator function comes to an end; a step that carries an error
  carries no chunk; and when the consumer refuses such a step the function returns
  without another call of \<^verbatim>\<open>yield\<close>.
\<close>

primrec Seq_contract :: "Seq \<Rightarrow> bool" where
  "Seq_contract (Return u) = True"
| "Seq_contract (Yield d e k) =
     (case e of
        None \<Rightarrow> Seq_contract (k True)
      | Some x \<Rightarrow> d = [] \<and> (case k False of Return u \<Rightarrow> True | Yield d' e' k' \<Rightarrow> False | Never \<Rightarrow> False))"
| "Seq_contract Never = False"

section \<open>Consumers used to state the properties\<close>

text \<open>A caller making successive calls of \<^verbatim>\<open>Read\<close> with buffers of the given lengths.\<close>

fun Reads :: "iterReader \<Rightarrow> nat list \<Rightarrow> ((bytes \<times> error option) list \<times> iterReader) option" where
  "Reads r [] = Some ([], r)"
| "Reads r (cap # caps) =
     (case Read r cap of
        None \<Rightarrow> None
      | Some (res, r') \<Rightarrow>
          (case Reads r' caps of
             None \<Rightarrow> None
           | Some (ress, r'') \<Rightarrow> Some (res # ress, r'')))"

text \<open>
  Reading to exhaustion: a caller that calls \<^verbatim>\<open>Read\<close> with a buffer of length \<open>cap\<close>
  until a call returns an error, and keeps the bytes of every call. The first argument
  bounds the number of calls.
\<close>

fun read_until_err :: "nat \<Rightarrow> nat \<Rightarrow> iterReader \<Rightarrow> (bytes \<times> error) option" where
  "read_until_err 0 cap r = None"
| "read_until_err (Suc fuel) cap r =
     (case Read r cap of
        None \<Rightarrow> None
      | Some ((d, Some e), r') \<Rightarrow> Some (d, e)
      | Some ((d, None), r') \<Rightarrow>
          (case read_until_err fuel cap r' of
             None \<Rightarrow> None
           | Some (ds, e) \<Rightarrow> Some (d @ ds, e)))"

text \<open>A destination that appends everything written to it (as \<^verbatim>\<open>bytes.Buffer\<close> does).\<close>

definition buffer_Write :: "bytes \<Rightarrow> bytes \<Rightarrow> (nat \<times> error option) \<times> bytes" where
  "buffer_Write buf w = ((length buf, None), w @ buf)"

definition Close_then_Read :: "iterReader \<Rightarrow> nat \<Rightarrow> ((bytes \<times> error option) \<times> iterReader) option" where
  "Close_then_Read r cap = (case Close r of None \<Rightarrow> None | Some r' \<Rightarrow> Read r' cap)"

definition Read_then_WriteTo ::
  "nat \<Rightarrow> iterReader \<Rightarrow> nat \<Rightarrow> (((int \<times> error option) \<times> bytes) \<times> iterReader) option" where
  "Read_then_WriteTo depth r cap =
     (case Read r cap of None \<Rightarrow> None | Some (res, r') \<Rightarrow> WriteTo depth r' buffer_Write [])"

section \<open>Example inputs\<close>

text \<open>An iterator function that yields the chunks of a list and returns when refused.\<close>

fun seq_of_chunks :: "bytes list \<Rightarrow> Seq" where
  "seq_of_chunks [] = Return ()"
| "seq_of_chunks (d # ds) = Yield d None (\<lambda>ok. if ok then seq_of_chunks ds else Return ())"

text \<open>The rest of such a function, suspended in a call of \<^verbatim>\<open>yield\<close>.\<close>

definition seq_of_chunks_rest :: "bool \<Rightarrow> Seq" where
  "seq_of_chunks_rest ok = (if ok then seq_of_chunks [''more''] else Return ())"


text \<open>
  A source that answers its calls of \<^verbatim>\<open>Read\<close> from a script, and signals end of input
  when the script is used up.
\<close>

fun scripted_read :: "(bytes \<times> error option) list \<Rightarrow> nat \<Rightarrow> (bytes \<times> error option) \<times> (bytes \<times> error option) list" where
  "scripted_read [] n = (([], Some EOF), [])"
| "scripted_read (x # xs) n = (x, xs)"

text \<open>
  A \<^verbatim>\<open>WriteTo\<close> that writes the given chunks in order, returns at the first write that
  fails with the error of that write, and otherwise returns the given final error.
\<close>

fun chunks_WriteTo :: "bytes list \<Rightarrow> error option \<Rightarrow> nat \<Rightarrow> (nat \<times> error option) wprog" where
  "chunks_WriteTo [] fin tot = WReturn (tot, fin)"
| "chunks_WriteTo (d # ds) fin tot =
     WWrite d (\<lambda>(n, e). case e of Some x \<Rightarrow> WReturn (tot + n, Some x)
                         | None \<Rightarrow> chunks_WriteTo ds fin (tot + n))"


definition after_Read :: "iterReader \<Rightarrow> nat \<Rightarrow> iterReader" where
  "after_Read r cap = (case Read r cap of None \<Rightarrow> r | Some (res, r') \<Rightarrow> r')"

section \<open>The sequence sink\<close>

lemma Write_all_inactive:
  "Write_all bufs False = Return (map (\<lambda>b. (0, Some ErrSequenceTerminated)) bufs, False)"
  by (induction bufs) (simp_all add: seqWriter_Write_def)

text \<open>
  Claim C5. A call of \<open>seqWriter_Write\<close> with the flag already false returns
  \<open>(0, ErrSequenceTerminated)\<close> without a call of the step function. With the flag true the
  step function is called once, with the bytes of \<open>buf\<close> and no error; when it refuses the
  flag becomes false and the call returns \<open>(0, ErrSequenceTerminated)\<close>, otherwise the call
  returns \<open>(len(buf), nil)\<close> and the flag stays true. Once the flag is false, any further
  writes all fail in that way, the step function is never called and the flag stays false.
\<close>

theorem seqWriter_Write_behaviour:
  "seqWriter_Write buf False = Return ((0, Some ErrSequenceTerminated), False)
   \<and> (\<exists>k. seqWriter_Write buf True = Yield buf None k
          \<and> k False = Return ((0, Some ErrSequenceTerminated), False)
          \<and> k True = Return ((length buf, None), True))
   \<and> Write_all bufs False = Return (map (\<lambda>b. (0, Some ErrSequenceTerminated)) bufs, False)"
  by (simp add: seqWriter_Write_def Write_all_inactive)

section \<open>The stream reader: terminal conditions\<close>

lemma Read_err: "err r = Some e \<Longrightarrow> Read r cap = Some (([], Some e), pulled r)"
  by (simp add: Read_def pulled_def Let_def split: option.splits)

lemma pulled_idem: "pulled (pulled r) = pulled r"
  by (simp add: pulled_def split: option.splits)

lemma pulled_err: "err (pulled r) = err r"
  by (simp add: pulled_def split: option.splits)

lemma Reads_err:
  "err r = Some e \<Longrightarrow>
     Reads r caps = Some (map (\<lambda>c. ([], Some e)) caps, if caps = [] then r else pulled r)"
proof (induction caps arbitrary: r)
  case Nil
  then show ?case by simp
next
  case (Cons c caps)
  have "err (pulled r) = Some e"
    using Cons.prems by (simp add: pulled_err)
  from Cons.IH[OF this] show ?case
    using Cons.prems by (simp add: Read_err pulled_idem)
qed

text \<open>
  Claim C4. Once the reader has recorded a terminal condition \<open>e\<close> (end-of-stream or a
  failure), every later call of \<open>Read\<close>, whatever the buffer lengths, returns zero bytes
  and \<open>e\<close>. The coroutine behind \<open>next\<close> is not resumed: it is the one the reader had, or,
  had \<open>Pull2\<close> not been called yet, the fresh one that has not started; the recorded
  error and the residual chunk are unchanged.
\<close>

theorem Read_terminal_sticky:
  "err r = Some e \<Longrightarrow>
     (\<exists>r'. Reads r (cap # caps) = Some (map (\<lambda>c. ([], Some e)) (cap # caps), r')
        \<and> next_fn r' = (case seq r of Some s \<Rightarrow> Some (NotStarted s) | None \<Rightarrow> next_fn r)
        \<and> err r' = Some e \<and> data r' = data r)"
  using Reads_err[of r e "cap # caps"]
  by (simp add: pulled_def split: option.splits)

theorem Read_terminal_sticky_witness:
  "err \<lparr>seq = None, next_fn = Some (Suspended seq_of_chunks_rest), close_fn = True,
        err = Some (Failure ''boom''), data = ''xy''\<rparr> = Some (Failure ''boom'')
   \<and> (\<exists>r'. Reads \<lparr>seq = None, next_fn = Some (Suspended seq_of_chunks_rest), close_fn = True,
                  err = Some (Failure ''boom''), data = ''xy''\<rparr> [3, 1]
            = Some ([([], Some (Failure ''boom'')), ([], Some (Failure ''boom''))], r')
        \<and> next_fn r' = Some (Suspended seq_of_chunks_rest)
        \<and> err r' = Some (Failure ''boom'') \<and> data r' = ''xy'')"
  using Read_terminal_sticky[of "\<lparr>seq = None, next_fn = Some (Suspended seq_of_chunks_rest),
        close_fn = True, err = Some (Failure ''boom''), data = ''xy''\<rparr>" "Failure ''boom''" 3 "[1]"]
  by simp

section \<open>The stream reader: Close\<close>

lemma Close_err:
  "close_fn r \<Longrightarrow> Close r = Some r' \<Longrightarrow>
     err r' = Some (case err r of None \<Rightarrow> EOF | Some e \<Rightarrow> e)"
  by (auto simp add: Close_def split: option.splits)

text \<open>
  Where \<^verbatim>\<open>r.close\<close> is set, that is after at least one \<open>Read\<close>, \<open>Close\<close> does what it
  sets out to do: once it has returned, every later call of \<open>Read\<close> returns zero bytes
  and the terminal condition, end-of-stream when no error had been recorded before
  \<open>Close\<close> and the recorded error otherwise.
\<close>

lemma Read_after_Close:
  "close_fn r \<Longrightarrow> Close r = Some r' \<Longrightarrow>
     (\<exists>r''. Reads r' (cap # caps)
        = Some (map (\<lambda>c. ([], Some (case err r of None \<Rightarrow> EOF | Some e \<Rightarrow> e))) (cap # caps), r''))"
  using Reads_err[OF Close_err, of r r' "cap # caps"] by simp

lemma Read_after_Close_example:
  "close_fn (after_Read (ReaderFromSeq (seq_of_chunks [''hello world''])) 5)
   \<and> Close (after_Read (ReaderFromSeq (seq_of_chunks [''hello world''])) 5)
       = Some \<lparr>seq = None, next_fn = Some Finished, close_fn = False, err = Some EOF,
               data = '' world''\<rparr>
   \<and> (\<exists>r''. Reads \<lparr>seq = None, next_fn = Some Finished, close_fn = False, err = Some EOF,
                   data = '' world''\<rparr> [5, 1]
        = Some ([([], Some EOF), ([], Some EOF)], r''))"
proof -
  let ?r = "after_Read (ReaderFromSeq (seq_of_chunks [''hello world''])) 5"
  let ?r' = "\<lparr>seq = None, next_fn = Some Finished, close_fn = False, err = Some EOF,
               data = '' world''\<rparr>"
  have a: "close_fn ?r"
    by (simp add: after_Read_def ReaderFromSeq_def Read_def pulled_def refill_def Let_def)
  have b: "Close ?r = Some ?r'"
    by (simp add: after_Read_def ReaderFromSeq_def Read_def pulled_def refill_def Let_def
        Close_def)
  have c: "err ?r = None"
    by (simp add: after_Read_def ReaderFromSeq_def Read_def pulled_def refill_def Let_def)
  from Read_after_Close[OF a b, of 5 "[1]"] a b c show ?thesis
    by simp
qed

text \<open>
  Claim C3 does not hold of the code. \<open>Close\<close> installs the end-of-stream marker only
  under the guard \<^verbatim>\<open>r.close != nil\<close>, and \<^verbatim>\<open>r.close\<close> is set by the first \<open>Read\<close>: on a
  reader on which \<open>Read\<close> was never called, \<open>Close\<close> changes nothing, and the \<open>Read\<close>
  that follows starts the sequence and returns its first chunk with no error, where the
  claim has zero bytes and end-of-stream.
\<close>

theorem Close_before_Read_returns_chunk:
  "Close (ReaderFromSeq (seq_of_chunks [''hi''])) = Some (ReaderFromSeq (seq_of_chunks [''hi'']))
   \<and> map_option fst (Close_then_Read (ReaderFromSeq (seq_of_chunks [''hi''])) 2)
        = Some (''hi'', None)"
  by (simp add: Close_then_Read_def Close_def ReaderFromSeq_def Read_def pulled_def
      refill_def Let_def)

section \<open>The stream reader: WriteTo after Read\<close>

lemma WriteTo_without_seq: "seq r = None \<Longrightarrow> WriteTo depth r wr w = None"
  by (induction depth) simp_all

text \<open>
  Claim C10 does not hold of the code. After one \<open>Read\<close> the field \<^verbatim>\<open>r.seq\<close> is nil, so
  \<open>WriteTo\<close> calls \<^verbatim>\<open>io.Copy(w, r)\<close>; \<^verbatim>\<open>io.Copy\<close> finds that \<^verbatim>\<open>r\<close> implements
  \<^verbatim>\<open>io.WriterTo\<close> and calls \<^verbatim>\<open>r.WriteTo(w)\<close> again, and so on: whatever depth of calls is
  allowed, the call does not return and nothing is written.
\<close>

theorem WriteTo_after_Read_never_returns:
  "Read_then_WriteTo depth (ReaderFromSeq (seq_of_chunks [''ab''])) 1 = None"
  by (simp add: Read_then_WriteTo_def ReaderFromSeq_def Read_def pulled_def refill_def
      Let_def WriteTo_without_seq)

section \<open>Composition of computations\<close>

lemma observe_pbind:
  "observe (pbind p f) =
     (case observe p of None \<Rightarrow> None
      | Some (xs, a) \<Rightarrow> (case observe (f a) of None \<Rightarrow> None | Some (ys, b) \<Rightarrow> Some (xs @ ys, b)))"
  by (induction p) (auto split: option.splits)






section \<open>SeqFromReader: the steps of both paths\<close>

lemma drive_writerFunc:
  "drive (WWrite d g) writerFunc a =
     Yield d None (\<lambda>ok. if ok then drive (g (length d, None)) writerFunc a
                        else drive (g (0, Some ErrSequenceTerminated)) writerFunc False)"
  by (auto simp add: writerFunc_def)





lemma observe_drive_writerFunc:
  "observe (drive g writerFunc True)
     = Some (map (\<lambda>d. (d, None)) (fst (accepting g)), (snd (accepting g), True))"
  by (induction g)
    (auto simp add: drive_writerFunc split: prod.splits option.splits simp del: drive.simps(2))

lemma observe_fast:
  "observe (SeqFromReader_fast wt)
     = Some (map (\<lambda>d. (d, None)) (fst (accepting wt))
             @ (case snd (snd (accepting wt)) of None \<Rightarrow> [] | Some e \<Rightarrow> [([], Some e)]), ())"
  by (auto simp add: SeqFromReader_fast_def observe_pbind observe_drive_writerFunc
      split: prod.splits option.splits)

lemma observe_fallback:
  "Read_to_end n rd bufSize s = Some (ds, e) \<Longrightarrow> n \<le> m \<Longrightarrow>
     observe (SeqFromReader_loop m rd bufSize s)
       = Some (map (\<lambda>d. (d, None)) (filter (\<lambda>d. d \<noteq> []) ds)
               @ (if e = EOF then [] else [([], Some e)]), ())"
proof (induction n arbitrary: m s ds)
  case 0
  then show ?case by simp
next
  case (Suc n)
  then obtain m' where m: "m = Suc m'" "n \<le> m'" by (cases m) auto
  obtain d er s' where r: "rd s bufSize = ((d, er), s')" by (metis prod.exhaust)
  show ?case
  proof (cases er)
    case None
    with Suc.prems r obtain ds' where ds: "ds = d # ds'" "Read_to_end n rd bufSize s' = Some (ds', e)"
      by (auto split: option.splits)
    from Suc.IH[OF ds(2) m(2)] show ?thesis
      using r None m ds by simp
  next
    case (Some x)
    with Suc.prems r have "ds = [d]" "e = x" by auto
    then show ?thesis using r Some m by (simp add: Let_def)
  qed
qed

lemma quiet_fallback: "quiet_after_refusal (SeqFromReader_loop n rd bufSize s)"
  by (induction n arbitrary: s) (auto simp add: Let_def split: prod.splits option.splits)

text \<open>
  Claim C7. For a source without \<open>WriteTo\<close> whose successive reads with a buffer of
  length \<open>bufSize\<close> return the chunks \<open>ds\<close> and then the terminal signal \<open>e\<close> (within the
  bound on the number of reads), a consumer that accepts every step of the fallback path
  receives exactly the non-empty chunks of \<open>ds\<close> in order, the chunk returned together with
  the terminal signal included, each with no error, followed by a single error step
  carrying \<open>e\<close> when \<open>e\<close> is a failure, and by nothing when \<open>e\<close> is end-of-input. After a
  refusal the sequence makes no further step, so no error step either.
\<close>

theorem SeqFromReader_fallback_steps:
  "writeTo r = None \<Longrightarrow> Read_to_end n (read r) bufSize (state r) = Some (ds, e) \<Longrightarrow> n \<le> fuel \<Longrightarrow>
     observe (SeqFromReader fuel r bufSize)
       = Some (map (\<lambda>d. (d, None)) (filter (\<lambda>d. d \<noteq> []) ds)
               @ (if e = EOF then [] else [([], Some e)]), ())
     \<and> quiet_after_refusal (SeqFromReader fuel r bufSize)"
  by (simp add: SeqFromReader_def observe_fallback quiet_fallback)

theorem SeqFromReader_fallback_steps_witness:
  "writeTo \<lparr>read = scripted_read,
            state = [(''foo'', None), ([], None), (''bar'', Some (Failure ''some error''))],
            writeTo = None\<rparr> = None
   \<and> Read_to_end (Suc (Suc (Suc 0))) scripted_read 8
        [(''foo'', None), ([], None), (''bar'', Some (Failure ''some error''))]
       = Some ([''foo'', [], ''bar''], Failure ''some error'')
   \<and> observe (SeqFromReader (Suc (Suc (Suc (Suc 0))))
        \<lparr>read = scripted_read,
         state = [(''foo'', None), ([], None), (''bar'', Some (Failure ''some error''))],
         writeTo = None\<rparr> 8)
       = Some ([(''foo'', None), (''bar'', None), ([], Some (Failure ''some error''))], ())
   \<and> quiet_after_refusal (SeqFromReader (Suc (Suc (Suc (Suc 0))))
        \<lparr>read = scripted_read,
         state = [(''foo'', None), ([], None), (''bar'', Some (Failure ''some error''))],
         writeTo = None\<rparr> 8)"
  using SeqFromReader_fallback_steps[of "\<lparr>read = scripted_read,
            state = [(''foo'', None), ([], None), (''bar'', Some (Failure ''some error''))],
            writeTo = None\<rparr>" "Suc (Suc (Suc 0))" 8 "[''foo'', [], ''bar'']" "Failure ''some error''"
            "Suc (Suc (Suc (Suc 0)))"]
  by simp





section \<open>Reading a sequence through the stream reader\<close>

lemma Read_pulled: "Read (pulled r) cap = Read r cap"
  by (simp add: Read_def pulled_idem)

lemma pulled_ReaderFromSeq:
  "pulled (ReaderFromSeq p)
     = \<lparr>seq = None, next_fn = Some (NotStarted p), close_fn = True, err = None, data = []\<rparr>"
  by (simp add: pulled_def ReaderFromSeq_def)

lemma read_until_err_pulled: "read_until_err m cap (pulled r) = read_until_err m cap r"
  by (cases m) (simp_all add: Read_pulled)

lemma Read_residual:
  "d \<noteq> [] \<Longrightarrow>
   Read \<lparr>seq = None, next_fn = Some c, close_fn = True, err = None, data = d\<rparr> cap
     = Some ((take cap d, None),
             \<lparr>seq = None, next_fn = Some c, close_fn = True, err = None, data = drop cap d\<rparr>)"
  by (simp add: Read_def pulled_def refill_def Let_def min_def)

lemma Read_fresh:
  "pull_next c = Some ((d, e, ok), c') \<Longrightarrow>
   Read \<lparr>seq = None, next_fn = Some c, close_fn = True, err = None, data = []\<rparr> cap
     = Some ((take cap d, if drop cap d \<noteq> [] then None else if \<not> ok then Some EOF else e),
             \<lparr>seq = None, next_fn = Some c', close_fn = True,
              err = (if \<not> ok then Some EOF else e), data = drop cap d\<rparr>)"
  by (simp add: Read_def pulled_def refill_def Let_def min_def)

lemma read_residual:
  assumes cap: "0 < cap"
    and rest: "read_until_err m cap \<lparr>seq = None, next_fn = Some c, close_fn = True, err = None, data = []\<rparr> = Some (bs, x)"
  shows "\<exists>m'. read_until_err m' cap \<lparr>seq = None, next_fn = Some c, close_fn = True, err = None, data = d\<rparr> = Some (d @ bs, x)"
proof (induction d rule: length_induct)
  case (1 d)
  show ?case
  proof (cases "d = []")
    case True
    with rest show ?thesis by auto
  next
    case False
    then have "length (drop cap d) < length d" using cap by simp
    with 1 obtain m' where
      "read_until_err m' cap \<lparr>seq = None, next_fn = Some c, close_fn = True, err = None, data = drop cap d\<rparr>
         = Some (drop cap d @ bs, x)"
      by blast
    then have "read_until_err (Suc m') cap \<lparr>seq = None, next_fn = Some c, close_fn = True, err = None, data = d\<rparr>
         = Some (take cap d @ drop cap d @ bs, x)"
      using False by (simp add: Read_residual)
    then show ?thesis by (metis append_assoc append_take_drop_id)
  qed
qed

lemma read_stream_aux:
  "0 < cap \<Longrightarrow> pull_next c = advance p \<Longrightarrow> stream_of cap p = Some (bs, x) \<Longrightarrow>
     \<exists>m. read_until_err m cap \<lparr>seq = None, next_fn = Some c, close_fn = True, err = None, data = []\<rparr>
            = Some (bs, x)"
proof (induction p arbitrary: c bs x)
  case (Return u)
  then have pn: "pull_next c = Some (([], None, False), Finished)" by simp
  from Return have "read_until_err (Suc 0) cap \<lparr>seq = None, next_fn = Some c, close_fn = True, err = None, data = []\<rparr>
            = Some (bs, x)"
    by (simp add: Read_fresh[OF pn])
  then show ?case by blast
next
  case Never
  then show ?case by simp
next
  case (Yield d e k)
  have pn: "pull_next c = Some ((d, e, True), Suspended k)" using Yield.prems by simp
  show ?case
  proof (cases e)
    case (Some y)
    with Yield.prems have bx: "bs = take cap d" "x = y" by auto
    have "read_until_err (Suc (Suc 0)) cap \<lparr>seq = None, next_fn = Some c, close_fn = True, err = None, data = []\<rparr>
            = Some (bs, x)"
      using bx Some by (simp add: Read_fresh[OF pn] Read_err pulled_def)
    then show ?thesis by blast
  next
    case None
    with Yield.prems obtain bs' where s: "stream_of cap (k True) = Some (bs', x)" "bs = d @ bs'"
      by (auto split: option.splits)
    have "pull_next (Suspended k) = advance (k True)" by simp
    from Yield.IH[OF _ Yield.prems(1) this s(1)] obtain m where
      m: "read_until_err m cap \<lparr>seq = None, next_fn = Some (Suspended k), close_fn = True, err = None, data = []\<rparr>
            = Some (bs', x)" by auto
    from read_residual[OF Yield.prems(1) m, of "drop cap d"] obtain m' where
      m': "read_until_err m' cap \<lparr>seq = None, next_fn = Some (Suspended k), close_fn = True, err = None, data = drop cap d\<rparr>
            = Some (drop cap d @ bs', x)" by auto
    have step: "Read \<lparr>seq = None, next_fn = Some c, close_fn = True, err = None, data = []\<rparr> cap
            = Some ((take cap d, None),
                \<lparr>seq = None, next_fn = Some (Suspended k), close_fn = True, err = None,
                 data = drop cap d\<rparr>)"
      using None by (simp add: Read_fresh[OF pn])
    have "read_until_err (Suc m') cap \<lparr>seq = None, next_fn = Some c, close_fn = True, err = None, data = []\<rparr>
            = Some (take cap d @ drop cap d @ bs', x)"
      by (simp add: step m')
    then show ?thesis using s(2) by (metis append_assoc append_take_drop_id)
  qed
qed

lemma read_stream:
  assumes "0 < cap" "stream_of cap p = Some (bs, x)"
  shows "\<exists>m. read_until_err m cap (ReaderFromSeq p) = Some (bs, x)"
proof -
  have "pull_next (NotStarted p) = advance p" by simp
  from read_stream_aux[OF assms(1) this assms(2)] obtain m where
    "read_until_err m cap (pulled (ReaderFromSeq p)) = Some (bs, x)"
    by (auto simp add: pulled_ReaderFromSeq)
  then show ?thesis by (auto simp add: read_until_err_pulled)
qed

section \<open>Round trip through SeqFromReader and ReaderFromSeq\<close>

lemma stream_of_observe:
  "observe p = Some (xs, a) \<Longrightarrow> stream_of cap p = Some (delivered cap xs)"
proof (induction p arbitrary: xs)
  case (Yield d e k)
  then show ?case by (cases e) (auto split: option.splits prod.splits)
qed auto

lemma delivered_chunks:
  "delivered cap (map (\<lambda>d. (d, None)) ds @ ys)
     = (concat ds @ fst (delivered cap ys), snd (delivered cap ys))"
  by (induction ds) auto

lemma concat_filter_nonempty: "concat (filter (\<lambda>d. d \<noteq> []) ds) = concat ds"
  by (induction ds) auto

lemma stream_of_SeqFromReader:
  assumes "source_stream n r bufSize = Some (bs, x)" "n \<le> fuel"
  shows "stream_of cap (SeqFromReader fuel r bufSize) = Some (bs, x)"
proof (cases "writeTo r")
  case None
  with assms obtain ds where ds: "Read_to_end n (read r) bufSize (state r) = Some (ds, x)" "bs = concat ds"
    by (auto simp add: source_stream_def split: option.splits)
  from observe_fallback[OF ds(1) assms(2)] show ?thesis
    using None ds(2)
    by (auto simp add: SeqFromReader_def delivered_chunks concat_filter_nonempty
        dest!: stream_of_observe[where cap = cap])
next
  case (Some wt)
  with assms have "bs = concat (fst (accepting wt))"
      "x = (case snd (snd (accepting wt)) of None \<Rightarrow> EOF | Some y \<Rightarrow> y)"
    by (auto simp add: source_stream_def split: prod.splits)
  then show ?thesis using Some stream_of_observe[OF observe_fast, of cap wt]
    by (auto simp add: SeqFromReader_def delivered_chunks split: option.splits)
qed

text \<open>
  Claim C1. Let the byte stream of a source be \<open>bs\<close> with terminal signal \<open>x\<close>: what its
  \<open>WriteTo\<close> writes (fast path) or what reading it with buffers of length \<open>bufSize\<close>
  returns within the bound on the number of reads (fallback path). Then reading the
  stream reader built on \<open>SeqFromReader\<close> of that source to exhaustion, with buffers of
  any positive length, comes to an end and has delivered exactly \<open>bs\<close>, in order, and
  the terminal condition \<open>x\<close>.
\<close>

theorem round_trip:
  "source_stream n r bufSize = Some (bs, x) \<Longrightarrow> n \<le> fuel \<Longrightarrow> 0 < cap \<Longrightarrow>
     \<exists>m. read_until_err m cap (ReaderFromSeq (SeqFromReader fuel r bufSize)) = Some (bs, x)"
  by (rule read_stream) (simp_all add: stream_of_SeqFromReader)

theorem round_trip_witness:
  "source_stream (Suc (Suc (Suc 0)))
      \<lparr>read = scripted_read, state = [(''foo'', None), ([], None), (''bar'', Some EOF)],
       writeTo = None\<rparr> 8 = Some (''foobar'', EOF)
   \<and> (\<exists>m. read_until_err m 2 (ReaderFromSeq (SeqFromReader (Suc (Suc (Suc 0)))
      \<lparr>read = scripted_read, state = [(''foo'', None), ([], None), (''bar'', Some EOF)],
       writeTo = None\<rparr> 8)) = Some (''foobar'', EOF))
   \<and> source_stream 0
      \<lparr>read = scripted_read, state = [],
       writeTo = Some (chunks_WriteTo [''foo'', ''bar''] None 0)\<rparr> 8 = Some (''foobar'', EOF)
   \<and> (\<exists>m. read_until_err m 2 (ReaderFromSeq (SeqFromReader 0
      \<lparr>read = scripted_read, state = [],
       writeTo = Some (chunks_WriteTo [''foo'', ''bar''] None 0)\<rparr> 8)) = Some (''foobar'', EOF))"
proof -
  have a: "source_stream (Suc (Suc (Suc 0)))
      \<lparr>read = scripted_read, state = [(''foo'', None), ([], None), (''bar'', Some EOF)],
       writeTo = None\<rparr> 8 = Some (''foobar'', EOF)"
    by (simp add: source_stream_def)
  have b: "source_stream 0
      \<lparr>read = scripted_read, state = [],
       writeTo = Some (chunks_WriteTo [''foo'', ''bar''] None 0)\<rparr> 8 = Some (''foobar'', EOF)"
    by (simp add: source_stream_def)
  from round_trip[OF a, of "Suc (Suc (Suc 0))" 2] round_trip[OF b, of 0 2] a b
  show ?thesis by simp
qed

section \<open>Bulk transfer against incremental reads\<close>

lemma CopySeq_loop_buffer:
  "CopySeq_loop (Yield d None k) (plain buffer_Write) tot w
     = CopySeq_loop (k True) (plain buffer_Write) (tot + int (length d)) (w @ d)"
  by (simp add: plain_def buffer_Write_def)

lemma CopySeq_stream:
  "Seq_contract p \<Longrightarrow>
     \<exists>bs x e'. CopySeq_loop p (plain buffer_Write) tot w = Return ((tot + int (length bs), e'), w @ bs)
        \<and> stream_of cap p = Some (bs, x) \<and> (e' = Some x \<or> e' = None \<and> x = EOF)"
proof (induction p arbitrary: tot w)
  case (Yield d e k)
  show ?case
  proof (cases e)
    case None
    with Yield.prems have "Seq_contract (k True)" by simp
    from Yield.IH[OF _ this, of "tot + int (length d)" "w @ d"] obtain bs x e' where
      "CopySeq_loop (k True) (plain buffer_Write) (tot + int (length d)) (w @ d)
         = Return ((tot + int (length d) + int (length bs), e'), (w @ d) @ bs)"
      "stream_of cap (k True) = Some (bs, x)" "e' = Some x \<or> e' = None \<and> x = EOF"
      by auto
    then show ?thesis using None
      by (intro exI[of _ "d @ bs"] exI[of _ x] exI[of _ e'])
         (simp add: CopySeq_loop_buffer add.assoc del: CopySeq_loop.simps(3))
  next
    case (Some y)
    with Yield.prems show ?thesis by (cases "k False") auto
  qed
qed auto

lemma Read_after_WriteTo:
  "Read (r\<lparr>seq := Some (Return ()), err := None, data := []\<rparr>) cap
     = Some (([], Some EOF),
        r\<lparr>seq := None, next_fn := Some Finished, close_fn := True, err := Some EOF, data := []\<rparr>)"
  by (simp add: Read_def pulled_def refill_def Let_def)

text \<open>
  Claim C2. For a sequence that keeps the contract, \<open>WriteTo\<close> on a reader that has not
  been read from returns, and the bytes \<open>bs\<close> it has appended to the destination, whose
  number it returns, are the bytes that repeated calls of \<open>Read\<close> on a reader over the
  same sequence deliver before they end; the terminal conditions agree (the bulk path
  returns no error where reading ends with end-of-stream). After the bulk path, every
  call of \<open>Read\<close> on that reader returns zero bytes and end-of-stream.
\<close>

theorem bulk_equals_incremental:
  "Seq_contract p \<Longrightarrow> 0 < cap \<Longrightarrow>
     \<exists>bs x e' r' r'' m.
        WriteTo (Suc depth) (ReaderFromSeq p) buffer_Write w
          = Some (((int (length bs), e'), w @ bs), r')
      \<and> read_until_err m cap (ReaderFromSeq p) = Some (bs, x)
      \<and> (e' = Some x \<or> e' = None \<and> x = EOF)
      \<and> Reads r' (c # caps) = Some (map (\<lambda>c. ([], Some EOF)) (c # caps), r'')"
proof -
  assume p: "Seq_contract p" and cap: "0 < cap"
  from CopySeq_stream[OF p, of 0 w cap] obtain bs x e' where
    c: "CopySeq_loop p (plain buffer_Write) 0 w = Return ((int (length bs), e'), w @ bs)"
       "stream_of cap p = Some (bs, x)" "e' = Some x \<or> e' = None \<and> x = EOF"
    by auto
  from read_stream[OF cap c(2)] obtain m where
    m: "read_until_err m cap (ReaderFromSeq p) = Some (bs, x)" by auto
  let ?r' = "(ReaderFromSeq p)\<lparr>seq := Some (Return ())\<rparr>"
  have w: "WriteTo (Suc depth) (ReaderFromSeq p) buffer_Write w
          = Some (((int (length bs), e'), w @ bs), ?r')"
    using c(1) by (simp add: CopySeq_def ReaderFromSeq_def)
  have "Read ?r' c = Some (([], Some EOF),
      \<lparr>seq = None, next_fn = Some Finished, close_fn = True, err = Some EOF, data = []\<rparr>)"
    using Read_after_WriteTo[of "ReaderFromSeq p" c] by (simp add: ReaderFromSeq_def)
  moreover have "Reads \<lparr>seq = None, next_fn = Some Finished, close_fn = True, err = Some EOF, data = []\<rparr> caps
      = Some (map (\<lambda>c. ([], Some EOF)) caps,
          if caps = [] then \<lparr>seq = None, next_fn = Some Finished, close_fn = True, err = Some EOF, data = []\<rparr>
          else pulled \<lparr>seq = None, next_fn = Some Finished, close_fn = True, err = Some EOF, data = []\<rparr>)"
    by (rule Reads_err) simp
  ultimately have "\<exists>r''. Reads ?r' (c # caps) = Some (map (\<lambda>c. ([], Some EOF)) (c # caps), r'')"
    by simp
  with w m c(3) show ?thesis by blast
qed

theorem bulk_equals_incremental_witness:
  "Seq_contract (seq_of_chunks [''foo'', [], ''bar''])
   \<and> (\<exists>bs x e' r' r'' m.
        WriteTo (Suc 0) (ReaderFromSeq (seq_of_chunks [''foo'', [], ''bar''])) buffer_Write ''>''
          = Some (((int (length bs), e'), ''>'' @ bs), r')
      \<and> read_until_err m 2 (ReaderFromSeq (seq_of_chunks [''foo'', [], ''bar''])) = Some (bs, x)
      \<and> (e' = Some x \<or> e' = None \<and> x = EOF)
      \<and> Reads r' [4, 1] = Some (map (\<lambda>c. ([], Some EOF)) [4, 1], r''))"
proof -
  have a: "Seq_contract (seq_of_chunks [''foo'', [], ''bar''])" by simp
  from bulk_equals_incremental[OF a, of 2 0 "''>''" 4 "[1]"] a show ?thesis
    by simp
qed

section \<open>PipeSeqThrough\<close>





lemma silent_quiet: "silent p \<Longrightarrow> quiet_after_refusal p"
  by (cases p) auto



subsection \<open>Once the flag is false\<close>





subsection \<open>While the flag may still be true\<close>






subsection \<open>What an accepting consumer receives\<close>









section \<open>The sequence sink and the storage of the chunk\<close>

text \<open>
  The two forms of \<open>Write\<close> agree: for a consumer that looks at the contents of the chunk,
  the computation on contents above, run against the step function, is the method on
  slices.
\<close>

lemma seqWriter_Write_refines:
  "s_len buf = length (view h buf) \<Longrightarrow>
     run (seqWriter_Write (view h buf) active) y c
       = Some (seqWriter_Write_mem (\<lambda>s. y (view h s)) buf active c)"
  by (simp add: seqWriter_Write_def seqWriter_Write_mem_def slices_Clip_def view_def
      split: prod.splits)

text \<open>
  Claim C6, as stated, fails: \<open>Write\<close> makes no copy. The chunk handed to the step
  function is a view on the caller's own array, and an overwrite of the caller's buffer
  after \<open>Write\<close> has returned changes the contents of that chunk.
\<close>

theorem Write_shares_storage_counterexample:
  "handed buf_foo = Some \<lparr>s_arr = 0, s_off = 0, s_len = 3, s_cap = 3\<rparr>
   \<and> view store_foobar \<lparr>s_arr = 0, s_off = 0, s_len = 3, s_cap = 3\<rparr> = ''foo''
   \<and> view (store_byte store_foobar buf_foo 0 CHR ''X'') \<lparr>s_arr = 0, s_off = 0, s_len = 3, s_cap = 3\<rparr>
       = ''Xoo''"
  by (simp add: handed_def seqWriter_Write_mem_def retain_def buf_foo_def slices_Clip_def
      view_def store_foobar_def store_byte_def)

text \<open>
  Claim C6, amended. The chunk that \<open>Write\<close> hands to the step function is
  \<^verbatim>\<open>slices.Clip(buf)\<close>: a view of exactly the requested bytes on the caller's backing
  array, at the same offset and with the same length, no copy, whose capacity is cut
  down to its length; so an append to the chunk by the consumer goes to a new array and
  leaves the caller's array as it was.
\<close>

theorem Write_hands_clipped_view:
  "handed buf = Some (slices_Clip buf)
   \<and> s_arr (slices_Clip buf) = s_arr buf \<and> s_off (slices_Clip buf) = s_off buf
   \<and> s_len (slices_Clip buf) = s_len buf \<and> s_cap (slices_Clip buf) = s_len buf
   \<and> view h (slices_Clip buf) = view h buf
   \<and> (fresh \<noteq> s_arr buf \<longrightarrow> fst (go_append h fresh (slices_Clip buf) b) (s_arr buf) = h (s_arr buf))"
  by (simp add: handed_def seqWriter_Write_mem_def retain_def slices_Clip_def view_def go_append_def)

theorem Write_hands_clipped_view_witness:
  "(1::nat) \<noteq> s_arr buf_foo
   \<and> fst (go_append store_foobar 1 (slices_Clip buf_foo) CHR ''X'') (s_arr buf_foo) = ''foobar''
   \<and> fst (go_append store_foobar 1 buf_foo CHR ''X'') (s_arr buf_foo) = ''fooXar''"
  using Write_hands_clipped_view[of buf_foo store_foobar 1 "CHR ''X''"]
  by (simp add: buf_foo_def store_foobar_def go_append_def)

end
